theory Spec2Isabelle
  imports Main "HOL-Library.Multiset" "HOL-Library.Char_ord" "HOL-Library.List_Lexorder"
begin

section \<open>Timer session engine (ui-components.js, TimerComponent)\<close>

text \<open>
  The record stored under the key \<open>timer-state\<close>: \<open>{ time, isRunning, startTime }\<close>.
  \<open>time\<close> counts seconds, \<open>startTime\<close> is a \<open>Date.now()\<close> reading in milliseconds
  or \<open>null\<close>. All numbers are integers of a size the host represents exactly.
\<close>

record timer_state =
  time :: int
  isRunning :: bool
  startTime :: "int option"

text \<open>
  JavaScript truthiness of a number-or-null field: \<open>null\<close> and \<open>0\<close> are falsy.
\<close>

definition truthy_num :: "int option \<Rightarrow> bool" where
  "truthy_num v = (case v of None \<Rightarrow> False | Some n \<Rightarrow> n \<noteq> 0)"

text \<open>
  The initialiser of the \<open>time\<close> state. \<open>saved\<close> is the parsed content of the storage
  key; \<open>None\<close> stands for a missing entry and for one that \<open>JSON.parse\<close> rejects (both
  paths return 0). \<open>now\<close> is the value of \<open>Date.now()\<close>. \<open>Math.floor (x / 1000)\<close> on
  integers is \<open>div\<close>, which rounds towards minus infinity as well.
\<close>

definition initial_time :: "int \<Rightarrow> timer_state option \<Rightarrow> int" where
  "initial_time now saved =
     (case saved of
        None \<Rightarrow> 0
      | Some timerState \<Rightarrow>
          if isRunning timerState \<and> truthy_num (startTime timerState)
          then (let elapsed = (now - the (startTime timerState)) div 1000
                in time timerState + elapsed)
          else time timerState)"

text \<open>
  \<open>saveTimerState\<close>, the one writer of the key: the record it stores when
  \<open>Date.now()\<close> reads \<open>now\<close>. The anchor is the reading of the clock, or \<open>null\<close>
  for a timer that does not run.
\<close>

definition saveTimerState :: "int \<Rightarrow> int \<Rightarrow> bool \<Rightarrow> timer_state" where
  "saveTimerState now currentTime running =
     \<lparr>time = currentTime, isRunning = running,
      startTime = (if running then Some now else None)\<rparr>"

definition initial_isRunning :: "timer_state option \<Rightarrow> bool" where
  "initial_isRunning saved = (case saved of None \<Rightarrow> False | Some timerState \<Rightarrow> isRunning timerState)"

text \<open>An entry of the history list stored under \<open>timer-history\<close>.\<close>

record history_entry =
  entry_id :: string
  duration :: int
  timestamp :: string
  entry_date :: string
  entry_note :: string

text \<open>
  The component's state: the three \<open>useState\<close> cells. The effects that copy the
  state to \<open>localStorage\<close> do not change it and are left out.
\<close>

record timer_component =
  cur_time :: int
  running :: bool
  timerHistory :: "history_entry list"

text \<open>
  What the host supplies when a session is saved: \<open>uid()\<close>,
  \<open>new Date().toISOString()\<close> and \<open>isoDate()\<close>.
\<close>

record save_env =
  env_uid :: string
  env_timestamp :: string
  env_date :: string

definition startTimer :: "timer_component \<Rightarrow> timer_component" where
  "startTimer c = c\<lparr>running := True\<rparr>"

definition pauseTimer :: "timer_component \<Rightarrow> timer_component" where
  "pauseTimer c = c\<lparr>running := False\<rparr>"

definition resetTimer :: "timer_component \<Rightarrow> timer_component" where
  "resetTimer c = c\<lparr>running := False, cur_time := 0\<rparr>"

text \<open>The interval callback: it is installed only while the timer runs.\<close>

definition tick :: "timer_component \<Rightarrow> timer_component" where
  "tick c = (if running c then c\<lparr>cur_time := cur_time c + 1\<rparr> else c)"

definition newEntry :: "save_env \<Rightarrow> timer_component \<Rightarrow> history_entry" where
  "newEntry env c = \<lparr>entry_id = env_uid env, duration = cur_time c,
                     timestamp = env_timestamp env, entry_date = env_date env, entry_note = []\<rparr>"

text \<open>
  \<open>saveTimer\<close>: \<open>[newEntry, ...prev].slice(0, 10)\<close> is \<open>take 10\<close> of the list with the
  new entry in front; \<open>resetTimer\<close> follows.
\<close>

definition saveTimer :: "save_env \<Rightarrow> timer_component \<Rightarrow> timer_component" where
  "saveTimer env c =
     (if cur_time c > 0
      then resetTimer (c\<lparr>timerHistory := take 10 (newEntry env c # timerHistory c)\<rparr>)
      else c)"

definition deleteHistoryEntry :: "string \<Rightarrow> timer_component \<Rightarrow> timer_component" where
  "deleteHistoryEntry i c = c\<lparr>timerHistory := filter (\<lambda>entry. entry_id entry \<noteq> i) (timerHistory c)\<rparr>"

definition updateEntryNote :: "string \<Rightarrow> string \<Rightarrow> timer_component \<Rightarrow> timer_component" where
  "updateEntryNote i n c =
     c\<lparr>timerHistory := map (\<lambda>entry. if entry_id entry = i then entry\<lparr>entry_note := n\<rparr> else entry) (timerHistory c)\<rparr>"

text \<open>The user's and the clock's actions on the component, and a run of them.\<close>

datatype timer_event =
    Start | Pause | Reset | Tick | Save save_env
  | DeleteEntry string | UpdateNote string string

fun timer_step :: "timer_component \<Rightarrow> timer_event \<Rightarrow> timer_component" where
  "timer_step c Start = startTimer c"
| "timer_step c Pause = pauseTimer c"
| "timer_step c Reset = resetTimer c"
| "timer_step c Tick = tick c"
| "timer_step c (Save env) = saveTimer env c"
| "timer_step c (DeleteEntry i) = deleteHistoryEntry i c"
| "timer_step c (UpdateNote i n) = updateEntryNote i n c"

definition timer_run :: "timer_component \<Rightarrow> timer_event list \<Rightarrow> timer_component" where
  "timer_run c evs = foldl timer_step c evs"


section \<open>Store model and mutation operations (ui-components.js, HabitApp)\<close>

text \<open>
  A habit object as \<open>startCreate\<close>, \<open>handleAddHabit\<close> and \<open>loadStore\<close> build it;
  \<open>hid\<close> is its field \<open>id\<close>. A missing \<open>archived\<close> field is falsy, which is
  \<open>False\<close> here. \<open>repeatDays\<close> holds week days, 0 for Sunday. The name is text the user
  types, any characters at all: it is kept as the host keeps a string, a sequence of
  UTF-16 code units (\<open>js_text\<close>, the units as numbers). Ids, dates and style tokens
  are ASCII and stay \<open>string\<close>.
\<close>

type_synonym js_text = "nat list"

record habit =
  hid :: string
  name :: js_text
  color :: string
  icon :: string
  repeatDays :: "int list"
  createdAt :: string
  order :: int
  archived :: bool

text \<open>
  An element of \<open>store.habits\<close>. Besides full habit objects the array can come to hold
  the object \<open>{ order: i }\<close>: it is what \<open>{ ...undefined, order: i }\<close> evaluates to in
  \<open>reorder\<close>. Such an object has no \<open>id\<close>.
\<close>

datatype habit_obj = Habit habit | OrderOnly int

fun obj_id :: "habit_obj \<Rightarrow> string option" where
  "obj_id (Habit h) = Some (hid h)"
| "obj_id (OrderOnly i) = None"

fun obj_order :: "habit_obj \<Rightarrow> int" where
  "obj_order (Habit h) = order h"
| "obj_order (OrderOnly i) = i"

text \<open>
  The store: the habit array and the ledger, an object that maps a date string to the
  array of the ids completed on that date.
\<close>

record store =
  habits :: "habit_obj list"
  completions :: "string \<rightharpoonup> string list"

text \<open>
  \<open>new Set(array)\<close> followed by \<open>[...set]\<close>: the elements in the order of their first
  occurrence. \<open>remdups\<close> keeps last occurrences, hence the two reversals.
\<close>

definition set_of_array :: "'a list \<Rightarrow> 'a list" where
  "set_of_array xs = rev (remdups (rev xs))"

text \<open>\<open>prev.completions[d] || []\<close>: an array, also an empty one, is truthy.\<close>

definition ledger_entry :: "store \<Rightarrow> string \<Rightarrow> string list" where
  "ledger_entry s d = (case completions s d of None \<Rightarrow> [] | Some l \<Rightarrow> l)"

definition toggle :: "habit \<Rightarrow> string \<Rightarrow> store \<Rightarrow> store" where
  "toggle h d prev =
     (let list = set_of_array (ledger_entry prev d);
          list' = (if hid h \<in> set list then removeAll (hid h) list else list @ [hid h])
      in prev\<lparr>completions := (completions prev)(d \<mapsto> list')\<rparr>)"

definition hasCompleted :: "store \<Rightarrow> string \<Rightarrow> string \<Rightarrow> bool" where
  "hasCompleted s d habitId = (case completions s d of None \<Rightarrow> False | Some l \<Rightarrow> habitId \<in> set l)"

text \<open>
  \<open>saveHabit\<close>: \<open>find\<close> returns the first object with the id or \<open>undefined\<close>; an
  object is truthy.
\<close>

definition saveHabit :: "habit \<Rightarrow> store \<Rightarrow> store" where
  "saveHabit h prev =
     (let exists = find (\<lambda>x. obj_id x = Some (hid h)) (habits prev);
          habits' = (if exists \<noteq> None
                     then map (\<lambda>x. if obj_id x = Some (hid h) then Habit h else x) (habits prev)
                     else habits prev @ [Habit h])
      in prev\<lparr>habits := habits'\<rparr>)"

text \<open>
  The code units \<open>String.prototype.trim\<close> strips: the white space of the language
  (tab U+0009, vertical tab U+000B, form feed U+000C, the zero width no-break space
  U+FEFF and the space separators of Unicode: U+0020, the no-break space U+00A0,
  U+1680, U+2000 to U+200A, U+202F, U+205F and the ideographic space U+3000) and its
  line terminators (U+000A, U+000D, U+2028, U+2029). All of them lie in the basic
  plane, so each is one code unit and no surrogate pair is white space.
\<close>

definition is_space :: "nat \<Rightarrow> bool" where
  "is_space c = (c \<in> set [0x0009, 0x000A, 0x000B, 0x000C, 0x000D, 0x0020, 0x00A0, 0x1680,
                          0x2000, 0x2001, 0x2002, 0x2003, 0x2004, 0x2005, 0x2006, 0x2007,
                          0x2008, 0x2009, 0x200A, 0x2028, 0x2029, 0x202F, 0x205F, 0x3000,
                          0xFEFF])"

definition trim :: "js_text \<Rightarrow> js_text" where
  "trim s = rev (dropWhile is_space (rev (dropWhile is_space s)))"

text \<open>
  The two places a new or edited habit reaches \<open>saveHabit\<close> from. The Save button of
  \<open>EditDialog\<close> carries \<open>disabled={!draft.name || !draft.name.trim()}\<close>: a disabled
  button fires no click, so \<open>onSave\<close> is not called.
\<close>

definition editDialog_save :: "habit \<Rightarrow> store \<Rightarrow> store" where
  "editDialog_save draft s =
     (if name draft = [] \<or> trim (name draft) = [] then s else saveHabit draft s)"

text \<open>
  \<open>handleAddHabit\<close> of the table view. The host supplies \<open>uid()\<close>, \<open>pickColor()\<close>,
  the current date and the number of habits the table shows.
\<close>

record add_env =
  add_uid :: string
  add_color :: string
  add_currentDate :: string
  add_count :: nat

definition handleAddHabit :: "add_env \<Rightarrow> js_text \<Rightarrow> store \<Rightarrow> store" where
  "handleAddHabit env newHabitName s =
     (if trim newHabitName \<noteq> []
      then saveHabit \<lparr>hid = add_uid env, name = trim newHabitName, color = add_color env,
                       icon = [CHR 0xE2, CHR 0x9C, CHR 0x85], repeatDays = [0, 1, 2, 3, 4, 5, 6],
                       createdAt = add_currentDate env, order = int (add_count env),
                       archived = False\<rparr> s
      else s)"

text \<open>
  \<open>deleteHabit\<close>: \<open>confirmed\<close> is the answer of the \<open>confirm\<close> dialog. The new store
  is built from the filtered array and the old ledger.
\<close>

definition deleteHabit :: "bool \<Rightarrow> string \<Rightarrow> store \<Rightarrow> store" where
  "deleteHabit confirmed i prev =
     (if \<not> confirmed then prev
      else \<lparr>habits = filter (\<lambda>h. obj_id h \<noteq> Some i) (habits prev),
             completions = completions prev\<rparr>)"

definition clearToday :: "bool \<Rightarrow> string \<Rightarrow> store \<Rightarrow> store" where
  "clearToday confirmed d prev =
     (if \<not> confirmed then prev else prev\<lparr>completions := (completions prev)(d \<mapsto> [])\<rparr>)"

text \<open>
  \<open>Array.prototype.splice (start, deleteCount, ...items)\<close> on an array of length
  \<open>len\<close>: a negative start counts from the end, both ends are clamped. The result is
  the pair of the removed elements and the array after the call.
\<close>

definition splice_start :: "int \<Rightarrow> nat \<Rightarrow> nat" where
  "splice_start start len =
     (if start < 0 then nat (max (int len + start) 0) else min (nat start) len)"

definition array_splice :: "'a list \<Rightarrow> int \<Rightarrow> nat \<Rightarrow> 'a list \<Rightarrow> 'a list \<times> 'a list" where
  "array_splice xs start deleteCount items =
     (let s = splice_start start (length xs);
          dc = min deleteCount (length xs - s)
      in (take dc (drop s xs), take s xs @ items @ drop (s + dc) xs))"

text \<open>
  \<open>{ ...h, order: i }\<close>, where \<open>h\<close> may be \<open>undefined\<close> (\<open>None\<close>): spreading
  \<open>undefined\<close> adds no field.
\<close>

fun spread_order :: "habit_obj option \<Rightarrow> nat \<Rightarrow> habit_obj" where
  "spread_order None i = OrderOnly (int i)"
| "spread_order (Some (Habit h)) i = Habit (h\<lparr>order := int i\<rparr>)"
| "spread_order (Some (OrderOnly j)) i = OrderOnly (int i)"

text \<open>
  \<open>reorder\<close>. The sort is stable (as \<open>Array.prototype.sort\<close> is) and so is
  \<open>sort_key\<close>. \<open>const [moved] = hs.splice(from, 1)\<close> binds \<open>undefined\<close> when nothing
  was removed; the array then holds \<open>undefined\<close> at the place of insertion.
\<close>

definition reorder :: "int \<Rightarrow> int \<Rightarrow> store \<Rightarrow> store" where
  "reorder from to prev =
     (let hs = map Some (sort_key obj_order (habits prev));
          (removed, hs1) = array_splice hs from 1 [];
          moved = (case removed of [] \<Rightarrow> None | m # _ \<Rightarrow> m);
          (_, hs2) = array_splice hs1 to 0 [moved];
          withOrder = map (\<lambda>(h, i). spread_order h i) (zip hs2 [0..<length hs2])
      in prev\<lparr>habits := withOrder\<rparr>)"

section \<open>Calendar utility (app.js)\<close>

text \<open>
  What a call can end with besides a value. \<open>RangeError\<close> is what
  \<open>Intl.DateTimeFormat.prototype.format\<close> throws on an invalid date. \<open>Unmodelled\<close>
  marks an input on which the host's behaviour is left open here (date strings that
  are not of the form YYYY-MM-DD with a day of the calendar, where \<open>new Date(string)\<close>
  depends on the engine; numeric literals other than digit strings; years before 1):
  nothing is stated about the code on such an input.
\<close>

datatype error = RangeError | Unmodelled

subsection \<open>Strings and numbers\<close>

definition is_digit :: "char \<Rightarrow> bool" where
  "is_digit c = (CHR ''0'' \<le> c \<and> c \<le> CHR ''9'')"

definition digit_val :: "char \<Rightarrow> nat" where
  "digit_val c = of_char c - 48"

definition digits_val :: "string \<Rightarrow> nat" where
  "digits_val s = foldl (\<lambda>acc c. 10 * acc + digit_val c) 0 s"

text \<open>
  \<open>Number(string)\<close> on a string of decimal digits, leading zeros allowed; the empty
  string gives 0.
\<close>

definition Number :: "string \<Rightarrow> error + int" where
  "Number s = (if list_all is_digit s then Inr (int (digits_val s)) else Inl Unmodelled)"

text \<open>\<open>string.split(sep)\<close> for a separator of one character.\<close>

fun split_on :: "char \<Rightarrow> string \<Rightarrow> string list" where
  "split_on sep [] = [[]]"
| "split_on sep (c # cs) =
     (if c = sep then [] # split_on sep cs
      else (case split_on sep cs of [] \<Rightarrow> [[c]] | p # ps \<Rightarrow> (c # p) # ps))"

text \<open>
  Element \<open>k\<close> of \<open>dateStr.split("-").map(Number)\<close> as a destructuring pattern reads
  it: a position past the end is \<open>undefined\<close>, which the date functions turn into
  \<open>NaN\<close> (\<open>None\<close>).
\<close>

definition part :: "string list \<Rightarrow> nat \<Rightarrow> error + int option" where
  "part ps k = (if k < length ps
                then (case Number (ps ! k) of Inl e \<Rightarrow> Inl e | Inr n \<Rightarrow> Inr (Some n))
                else Inr None)"

text \<open>The decimal numeral of a natural number, and \<open>padStart(2, '0')\<close>.\<close>

fun dec :: "nat \<Rightarrow> string" where
  "dec n = (if n < 10 then [char_of (48 + n)] else dec (n div 10) @ [char_of (48 + n mod 10)])"

declare dec.simps [simp del]

definition padStart2 :: "string \<Rightarrow> string" where
  "padStart2 s = replicate (2 - length s) CHR ''0'' @ s"

subsection \<open>Days and dates\<close>

text \<open>
  The number of the day (days since 1970-01-01) of a date of the proleptic Gregorian
  calendar and back, by the usual era arithmetic (an era is 400 years, 146097 days,
  and starts on 1 March). They stand for the host's \<open>MakeDay\<close>, \<open>YearFromTime\<close>,
  \<open>MonthFromTime\<close> and \<open>DateFromTime\<close>.
\<close>

definition days_from_civil :: "int \<Rightarrow> int \<Rightarrow> int \<Rightarrow> int" where
  "days_from_civil y m d =
     (let y' = (if m \<le> 2 then y - 1 else y);
          era = y' div 400;
          yoe = y' - era * 400;
          doy = (153 * (if m > 2 then m - 3 else m + 9) + 2) div 5 + d - 1;
          doe = yoe * 365 + yoe div 4 - yoe div 100 + doy
      in era * 146097 + doe - 719468)"

definition civil_from_days :: "int \<Rightarrow> int \<times> int \<times> int" where
  "civil_from_days z =
     (let z' = z + 719468;
          era = z' div 146097;
          doe = z' - era * 146097;
          yoe = (doe - doe div 1460 + doe div 36524 - doe div 146096) div 365;
          y = yoe + era * 400;
          doy = doe - (365 * yoe + yoe div 4 - yoe div 100);
          mp = (5 * doy + 2) div 153;
          d = doy - (153 * mp + 2) div 5 + 1;
          m = (if mp < 10 then mp + 3 else mp - 9)
      in (if m \<le> 2 then y + 1 else y, m, d))"

definition days_in_month :: "int \<Rightarrow> int \<Rightarrow> int" where
  "days_in_month y m =
     days_from_civil (if m = 12 then y + 1 else y) (if m = 12 then 1 else m + 1) 1
       - days_from_civil y m 1"

definition ms_per_day :: int where
  "ms_per_day = 86400000"

text \<open>
  A \<open>Date\<close> object is its time value: milliseconds since the epoch, or \<open>NaN\<close>
  (\<open>None\<close>, an invalid date). \<open>TimeClip\<close> bounds a time value.
\<close>

definition time_clip :: "int \<Rightarrow> int option" where
  "time_clip t = (if \<bar>t\<bar> \<le> 8640000000000000 then Some t else None)"

text \<open>
  \<open>new Date(Date.UTC(year, month, day))\<close>: the month counts from 0 and may lie
  outside 0..11, the day may lie outside the month, a year from 0 to 99 means
  1900 + year.
\<close>

definition Date_UTC :: "int option \<Rightarrow> int option \<Rightarrow> int option \<Rightarrow> int option" where
  "Date_UTC year month day =
     (case (year, month, day) of
        (Some y, Some m, Some d) \<Rightarrow>
          (let yr = (if 0 \<le> y \<and> y \<le> 99 then 1900 + y else y);
               ym = yr + m div 12;
               mn = m mod 12
           in time_clip ((days_from_civil ym (mn + 1) 1 + d - 1) * ms_per_day))
      | _ \<Rightarrow> None)"

definition getUTCDate :: "int option \<Rightarrow> int option" where
  "getUTCDate dt = (case dt of None \<Rightarrow> None
     | Some t \<Rightarrow> (case civil_from_days (t div ms_per_day) of (y, m, d) \<Rightarrow> Some d))"

definition setUTCDate :: "int option \<Rightarrow> int option \<Rightarrow> int option" where
  "setUTCDate dt n = (case (dt, n) of
       (Some t, Some n') \<Rightarrow>
         (case civil_from_days (t div ms_per_day) of
            (y, m, d) \<Rightarrow> time_clip ((days_from_civil y m 1 + n' - 1) * ms_per_day + t mod ms_per_day))
     | _ \<Rightarrow> None)"

subsection \<open>The time zone\<close>

text \<open>
  \<open>tz\<close> is the zone the host resolves, the same one \<open>new Date(string)\<close> and
  \<open>getDay\<close> use as the local zone. It is a parameter \<open>off\<close> of every function that
  depends on it: a zone of a fixed offset, \<open>off\<close> minutes east of UTC (60 for
  Europe/Zurich in winter, -300 for America/Bogota). Daylight saving is not modelled.

  \<open>isoDate\<close> formats the three fields with \<open>Intl.DateTimeFormat\<close> in \<open>tz\<close>: the
  year as it is, month and day with two digits.
\<close>

definition isoDate :: "int \<Rightarrow> int option \<Rightarrow> error + string" where
  "isoDate off dt =
     (case dt of
        None \<Rightarrow> Inl RangeError
      | Some t \<Rightarrow>
          (case civil_from_days ((t + off * 60000) div ms_per_day) of
             (y, m, d) \<Rightarrow>
               if y < 1 then Inl Unmodelled
               else Inr (dec (nat y) @ ''-'' @ padStart2 (dec (nat m)) @ ''-''
                         @ padStart2 (dec (nat d)))))"

definition addDays :: "int \<Rightarrow> string \<Rightarrow> int \<Rightarrow> error + string" where
  "addDays off dateStr delta =
     (let ps = split_on CHR ''-'' dateStr in
      case part ps 0 of Inl e \<Rightarrow> Inl e | Inr y \<Rightarrow>
      case part ps 1 of Inl e \<Rightarrow> Inl e | Inr m \<Rightarrow>
      case part ps 2 of Inl e \<Rightarrow> Inl e | Inr d \<Rightarrow>
        (let dt = Date_UTC y (map_option (\<lambda>m. m - 1) m) d;
             dt' = setUTCDate dt (map_option (\<lambda>k. k + delta) (getUTCDate dt))
         in isoDate off dt'))"

text \<open>
  \<open>new Date(s + "T00:00:00")\<close>: a date-time without a zone is local time. The time
  value is given for a string YYYY-MM-DD that names a day of the calendar.
\<close>

definition parse_local :: "int \<Rightarrow> string \<Rightarrow> error + int" where
  "parse_local off s =
     (let ys = take 4 s; ms = take 2 (drop 5 s); ds = drop 8 s;
          y = int (digits_val ys); m = int (digits_val ms); d = int (digits_val ds)
      in if length s = 10 \<and> s ! 4 = CHR ''-'' \<and> s ! 7 = CHR ''-''
            \<and> list_all is_digit ys \<and> list_all is_digit ms \<and> list_all is_digit ds
            \<and> 1 \<le> m \<and> m \<le> 12 \<and> 1 \<le> d \<and> d \<le> days_in_month y m
         then Inr (days_from_civil y m d * ms_per_day - off * 60000)
         else Inl Unmodelled)"

text \<open>\<open>getDay\<close>: the day of the week in the local zone, 0 for Sunday.\<close>

definition getDay :: "int \<Rightarrow> int \<Rightarrow> int" where
  "getDay off t = ((t + off * 60000) div ms_per_day + 4) mod 7"

text \<open>
  The loop of \<open>monthRange\<close>. \<open>step\<close> stands for \<open>d \<mapsto> addDays(d, 1)\<close> and \<open>endIso\<close>
  for \<open>isoDate(end)\<close>, which the loop evaluates anew in each round.
\<close>

function monthRange_loop ::
  "(string \<Rightarrow> error + string) \<Rightarrow> (error + string) \<Rightarrow> string list \<Rightarrow> string \<Rightarrow> error + string list" where
  "monthRange_loop step endIso days d =
     (let days' = days @ [d] in
      case endIso of
        Inl e \<Rightarrow> Inl e
      | Inr e \<Rightarrow>
          if d = e then Inr days'
          else (case step d of
                  Inl err \<Rightarrow> Inl err
                | Inr d' \<Rightarrow> if length days' > 40 then Inr days'
                            else monthRange_loop step endIso days' d'))"
  by pat_completeness auto
termination
  by (relation "measure (\<lambda>(step, endIso, days, d). 41 - length days)") auto

declare monthRange_loop.simps [simp del]

definition monthRange :: "int \<Rightarrow> string \<Rightarrow> error + string list" where
  "monthRange off dateStr =
     (let ps = split_on CHR ''-'' dateStr in
      case part ps 0 of Inl e \<Rightarrow> Inl e | Inr yo \<Rightarrow>
      case part ps 1 of Inl e \<Rightarrow> Inl e | Inr mo \<Rightarrow>
      (case (yo, mo) of
         (Some y, Some m) \<Rightarrow>
           (let first = dec (nat y) @ ''-'' @ padStart2 (dec (nat m)) @ ''-01'' in
            case parse_local off first of Inl e \<Rightarrow> Inl e | Inr start \<Rightarrow>
              (let end = Date_UTC yo mo (Some 0) in
               case isoDate off (Some start) of Inl e \<Rightarrow> Inl e | Inr d \<Rightarrow>
                 monthRange_loop (\<lambda>d. addDays off d 1) (isoDate off end) [] d))
       | _ \<Rightarrow> Inl Unmodelled))"

section \<open>Scheduling and streaks (app.js)\<close>

definition isScheduled :: "int \<Rightarrow> habit \<Rightarrow> string \<Rightarrow> error + bool" where
  "isScheduled off h d =
     (case parse_local off d of
        Inl e \<Rightarrow> Inl e
      | Inr dt \<Rightarrow> (let dow = getDay off dt in Inr (dow \<in> set (repeatDays h) \<and> \<not> archived h)))"

text \<open>
  The loop of \<open>calcStreak\<close>, with \<open>streak\<close> and \<open>d\<close> as arguments. The result is
  \<open>None\<close> when the loop runs forever. \<open>d < habit.createdAt\<close> compares strings
  character by character, as the order on \<open>string\<close> does.
\<close>

partial_function (option) calcStreak_loop ::
  "int \<Rightarrow> store \<Rightarrow> habit \<Rightarrow> nat \<Rightarrow> string \<Rightarrow> (error + nat) option" where
  "calcStreak_loop off s h streak d =
     (let beforeCreated = (d < createdAt h) in
      case isScheduled off h d of
        Inl e \<Rightarrow> Some (Inl e)
      | Inr scheduled \<Rightarrow>
          (let done = hasCompleted s d (hid h) in
           if scheduled \<and> \<not> done then Some (Inr streak)
           else (let streak' = (if scheduled \<and> done then streak + 1 else streak) in
                 if beforeCreated then Some (Inr streak')
                 else (case addDays off d (- 1) of
                         Inl e \<Rightarrow> Some (Inl e)
                       | Inr prev \<Rightarrow>
                           if prev = d then Some (Inr streak')
                           else if streak' > 3650 then Some (Inr streak')
                           else calcStreak_loop off s h streak' prev))))"

declare calcStreak_loop.simps [code]

definition calcStreak :: "int \<Rightarrow> store \<Rightarrow> habit \<Rightarrow> string \<Rightarrow> (error + nat) option" where
  "calcStreak off s h fromDate = calcStreak_loop off s h 0 fromDate"

section \<open>Notions the statements use\<close>

text \<open>A habit object with its \<open>order\<close> field set to 0: what reordering leaves alone.\<close>

definition forget_order :: "habit_obj \<Rightarrow> habit_obj" where
  "forget_order x = spread_order (Some x) 0"

text \<open>
  Moving one element of a list: the element at position \<open>i\<close> is taken out and put
  back at position \<open>j\<close> of what remains.
\<close>

definition move_elem :: "'a list \<Rightarrow> nat \<Rightarrow> nat \<Rightarrow> 'a list" where
  "move_elem xs i j =
     (let rest = take i xs @ drop (Suc i) xs in take j rest @ [xs ! i] @ drop j rest)"

text \<open>
  The date object \<open>addDays\<close> hands to \<open>isoDate\<close>: everything \<open>addDays\<close> does
  before the zone comes in.
\<close>

definition addDays_instant :: "string \<Rightarrow> int \<Rightarrow> error + int option" where
  "addDays_instant dateStr delta =
     (let ps = split_on CHR ''-'' dateStr in
      case part ps 0 of Inl e \<Rightarrow> Inl e | Inr y \<Rightarrow>
      case part ps 1 of Inl e \<Rightarrow> Inl e | Inr m \<Rightarrow>
      case part ps 2 of Inl e \<Rightarrow> Inl e | Inr d \<Rightarrow>
        (let dt = Date_UTC y (map_option (\<lambda>m. m - 1) m) d
         in Inr (setUTCDate dt (map_option (\<lambda>k. k + delta) (getUTCDate dt)))))"

text \<open>One round of the loop of \<open>calcStreak\<close>, the rest of the loop being \<open>k\<close>.\<close>

definition streak_round ::
  "(error + bool) \<Rightarrow> bool \<Rightarrow> bool \<Rightarrow> (error + string) \<Rightarrow> string \<Rightarrow> nat \<Rightarrow>
   (nat \<Rightarrow> string \<Rightarrow> (error + nat) option) \<Rightarrow> (error + nat) option" where
  "streak_round sched dn beforeCreated back d streak k =
     (case sched of
        Inl e \<Rightarrow> Some (Inl e)
      | Inr scheduled \<Rightarrow>
           if scheduled \<and> \<not> dn then Some (Inr streak)
           else (let streak' = (if scheduled \<and> dn then streak + 1 else streak) in
                 if beforeCreated then Some (Inr streak')
                 else (case back of
                         Inl e \<Rightarrow> Some (Inl e)
                       | Inr prev \<Rightarrow>
                           if prev = d then Some (Inr streak')
                           else if streak' > 3650 then Some (Inr streak')
                           else k streak' prev)))"

subsection \<open>Sample data\<close>

definition sample_habit :: "string \<Rightarrow> int \<Rightarrow> habit" where
  "sample_habit i k = \<lparr>hid = i, name = [0x52, 0x65, 0x61, 0x64], color = ''bg-blue-100'',
                        icon = ''R'',
                        repeatDays = [0, 1, 2, 3, 4, 5, 6], createdAt = ''2024-01-01'',
                        order = k, archived = False\<rparr>"

text \<open>A habit due every day, created on 2024-01-01, done on 3, 4 and 5 January.\<close>

definition sample_store :: store where
  "sample_store =
     \<lparr>habits = [Habit (sample_habit ''h1'' 0)],
      completions = [''2024-01-05'' \<mapsto> [''h1''], ''2024-01-04'' \<mapsto> [''h1''],
                     ''2024-01-03'' \<mapsto> [''h1'']]\<rparr>"

definition three_habits :: store where
  "three_habits =
     \<lparr>habits = [Habit (sample_habit ''a'' 0), Habit (sample_habit ''b'' 1),
                Habit (sample_habit ''c'' 2)],
      completions = Map.empty\<rparr>"

text \<open>
  A draft whose name is a space, a no-break space and an ideographic space, and one
  whose name is the empty string.
\<close>

definition blank_habit :: habit where
  "blank_habit = (sample_habit ''n1'' 3)\<lparr>name := [0x0020, 0x00A0, 0x3000]\<rparr>"

definition unnamed_habit :: habit where
  "unnamed_habit = (sample_habit ''n2'' 3)\<lparr>name := []\<rparr>"

definition one_habit :: store where
  "one_habit = \<lparr>habits = [Habit (sample_habit ''a'' 0)], completions = Map.empty\<rparr>"

definition sample_add_env :: add_env where
  "sample_add_env = \<lparr>add_uid = ''q7w1e5rt'', add_color = ''bg-blue-100'',
                      add_currentDate = ''2024-01-05'', add_count = 3\<rparr>"

definition sample_env :: save_env where
  "sample_env = \<lparr>env_uid = ''k3x9q2ab'', env_timestamp = ''2024-01-05T10:00:00.000Z'',
                  env_date = ''2024-01-05''\<rparr>"

definition old_entry :: "nat \<Rightarrow> history_entry" where
  "old_entry k = \<lparr>entry_id = dec k, duration = 60, timestamp = ''2024-01-04T10:00:00.000Z'',
                  entry_date = ''2024-01-04'', entry_note = []\<rparr>"

text \<open>A timer with a full history of ten entries and 25 seconds on the clock.\<close>

definition full_timer :: timer_component where
  "full_timer = \<lparr>cur_time = 25, running = True, timerHistory = map old_entry [0..<10]\<rparr>"

section \<open>Timer: restore and history\<close>

text \<open>
  Claim C1. For every stored state whose anchor is not the clock reading 0, the
  restored time is the stored time plus the whole seconds elapsed since the anchor
  exactly when the state is running and has an anchor, and the stored time in every
  other case. These are the states the timer stores: \<open>saveTimerState\<close> writes the
  reading of the clock for a running timer and \<open>null\<close> otherwise, and for what it
  writes at any reading but 0 the restored time is the stored time plus the seconds
  since then for a running timer, and the stored time for one that does not run. A
  state \<open>{time: 100, isRunning: true, startTime: T}\<close> restored 30 seconds after \<open>T\<close>
  shows 130.
\<close>

theorem initial_time_restore:
  "(startTime ts \<noteq> Some 0 \<longrightarrow>
      initial_time now (Some ts) =
        (if isRunning ts \<and> startTime ts \<noteq> None
         then time ts + (now - the (startTime ts)) div 1000
         else time ts))
   \<and> (wrote \<noteq> 0 \<longrightarrow>
        initial_time now (Some (saveTimerState wrote t r)) =
          (if r then t + (now - wrote) div 1000 else t))
   \<and> (T \<noteq> 0 \<longrightarrow>
        initial_time (T + 30000) (Some \<lparr>time = 100, isRunning = True, startTime = Some T\<rparr>) = 130)"
  by (auto simp add: initial_time_def truthy_num_def saveTimerState_def Let_def
        split: option.splits)

theorem initial_time_restore_witness:
  "startTime \<lparr>time = 100, isRunning = True, startTime = Some 1704448800000\<rparr> \<noteq> Some 0
   \<and> (1704448800000 :: int) \<noteq> 0
   \<and> initial_time (1704448800000 + 30000)
        (Some \<lparr>time = 100, isRunning = True, startTime = Some 1704448800000\<rparr>) = 130
   \<and> initial_time (1704448800000 + 30000) (Some (saveTimerState 1704448800000 100 True)) = 130
   \<and> initial_time (1704448800000 + 30000) (Some (saveTimerState 1704448800000 100 False)) = 100"
  using initial_time_restore [of "\<lparr>time = 100, isRunning = True, startTime = Some 1704448800000\<rparr>"
      "1704448800000 + 30000" 1704448800000 100 True 1704448800000]
    initial_time_restore [of "\<lparr>time = 100, isRunning = True, startTime = Some 1704448800000\<rparr>"
      "1704448800000 + 30000" 1704448800000 100 False 1704448800000]
  by simp

text \<open>
  The reading 0 is the epoch itself. An anchor of 0 is falsy, and the initialiser
  takes the state for one without an anchor.
\<close>

lemma initial_time_zero_anchor:
  "initial_time 30000 (Some \<lparr>time = 100, isRunning = True, startTime = Some 0\<rparr>) = 100"
  by (simp add: initial_time_def truthy_num_def)

text \<open>
  Claim C2, as the code has it. For a running state with a truthy anchor and a restore
  instant before the anchor, the restored time is the stored time plus the floor of the
  negative difference in seconds: nothing clamps it, and the restored time is smaller
  than the stored one.
\<close>

theorem initial_time_clock_backward:
  "isRunning ts \<Longrightarrow> startTime ts = Some t \<Longrightarrow> t \<noteq> 0 \<Longrightarrow> now < t \<Longrightarrow>
     initial_time now (Some ts) = time ts + (now - t) div 1000
     \<and> initial_time now (Some ts) < time ts"
  by (auto simp add: initial_time_def truthy_num_def Let_def)

theorem initial_time_clock_backward_witness:
  "isRunning \<lparr>time = 100, isRunning = True, startTime = Some 60000\<rparr>
   \<and> startTime \<lparr>time = 100, isRunning = True, startTime = Some 60000\<rparr> = Some 60000
   \<and> (60000 :: int) \<noteq> 0 \<and> (30000 :: int) < 60000
   \<and> initial_time 30000 (Some \<lparr>time = 100, isRunning = True, startTime = Some 60000\<rparr>) = 70"
  using initial_time_clock_backward [of "\<lparr>time = 100, isRunning = True, startTime = Some 60000\<rparr>"
      60000 30000]
  by simp

text \<open>
  The wall clock moved back by 30 seconds: the stored 100 seconds come back as 70, not
  as 100.
\<close>

theorem initial_time_clamp_counterexample:
  "isRunning \<lparr>time = 100, isRunning = True, startTime = Some 60000\<rparr>
   \<and> (30000 :: int) < 60000
   \<and> initial_time 30000 (Some \<lparr>time = 100, isRunning = True, startTime = Some 60000\<rparr>) = 70
   \<and> initial_time 30000 (Some \<lparr>time = 100, isRunning = True, startTime = Some 60000\<rparr>)
        \<noteq> time \<lparr>time = 100, isRunning = True, startTime = Some 60000\<rparr>"
  by (simp add: initial_time_def truthy_num_def)

lemma timer_step_history_length:
  "length (timerHistory c) \<le> 10 \<Longrightarrow> length (timerHistory (timer_step c ev)) \<le> 10"
proof (cases ev)
  case (DeleteEntry i)
  assume len: "length (timerHistory c) \<le> 10"
  have "length (filter (\<lambda>entry. entry_id entry \<noteq> i) (timerHistory c))
          \<le> length (timerHistory c)"
    by (rule length_filter_le)
  then have "length (filter (\<lambda>entry. entry_id entry \<noteq> i) (timerHistory c)) \<le> 10"
    using len by (rule order_trans)
  then show ?thesis using DeleteEntry by (simp add: deleteHistoryEntry_def)
qed (simp_all add: startTimer_def pauseTimer_def resetTimer_def tick_def saveTimer_def
       updateEntryNote_def)

lemma timer_run_history_length:
  "length (timerHistory c) \<le> 10 \<Longrightarrow> length (timerHistory (timer_run c evs)) \<le> 10"
  unfolding timer_run_def
  by (induction evs arbitrary: c) (simp_all add: timer_step_history_length)

lemma saveTimer_history:
  "0 < cur_time c \<Longrightarrow> timerHistory (saveTimer env c) = take 10 (newEntry env c # timerHistory c)"
  by (simp add: saveTimer_def resetTimer_def)

text \<open>
  Claim C8. A history of at most ten entries stays at most ten entries long under
  every run of timer events, saves included. A save with time on the clock leaves at
  most ten entries whatever the history was: it puts exactly one new entry in front
  and keeps the first ten, so on a history of ten it drops the last, oldest entry and
  no other, and on a shorter one it drops nothing. A save with no time on the clock
  changes nothing.
\<close>

theorem timer_history_capped:
  "(length (timerHistory c) \<le> 10 \<longrightarrow> length (timerHistory (timer_run c evs)) \<le> 10)
   \<and> (0 < cur_time c \<longrightarrow>
        length (timerHistory (saveTimer env c)) \<le> 10
        \<and> timerHistory (saveTimer env c) = take 10 (newEntry env c # timerHistory c)
        \<and> (length (timerHistory c) = 10 \<longrightarrow>
             timerHistory (saveTimer env c) = newEntry env c # butlast (timerHistory c))
        \<and> (length (timerHistory c) < 10 \<longrightarrow>
             timerHistory (saveTimer env c) = newEntry env c # timerHistory c))
   \<and> (cur_time c \<le> 0 \<longrightarrow> saveTimer env c = c)"
proof -
  have run: "length (timerHistory (timer_run c evs)) \<le> 10" if "length (timerHistory c) \<le> 10"
    using that by (rule timer_run_history_length)
  have save: "timerHistory (saveTimer env c) = take 10 (newEntry env c # timerHistory c)"
    if "0 < cur_time c"
    using that by (rule saveTimer_history)
  have bound: "length (take 10 (newEntry env c # timerHistory c)) \<le> 10"
    by simp
  have full: "take 10 (newEntry env c # timerHistory c) = newEntry env c # butlast (timerHistory c)"
    if "length (timerHistory c) = 10"
    using that by (simp add: butlast_conv_take)
  have short: "take 10 (newEntry env c # timerHistory c) = newEntry env c # timerHistory c"
    if "length (timerHistory c) < 10"
    using that by simp
  have idle: "saveTimer env c = c" if "cur_time c \<le> 0"
    using that by (simp add: saveTimer_def)
  show ?thesis using run save bound full short idle by metis
qed

theorem timer_history_capped_witness:
  "length (timerHistory full_timer) \<le> 10
   \<and> length (timerHistory (timer_run full_timer [Save sample_env, Start, Tick, Save sample_env])) \<le> 10
   \<and> 0 < cur_time full_timer
   \<and> length (timerHistory full_timer) = 10
   \<and> timerHistory (saveTimer sample_env full_timer)
        = newEntry sample_env full_timer # butlast (timerHistory full_timer)"
proof -
  have len: "length (timerHistory full_timer) = 10" by (simp add: full_timer_def)
  then have le: "length (timerHistory full_timer) \<le> 10" by simp
  have pos: "0 < cur_time full_timer" by (simp add: full_timer_def)
  from timer_history_capped [of full_timer "[Save sample_env, Start, Tick, Save sample_env]" sample_env]
    len pos le show ?thesis by blast
qed

section \<open>Store: toggle, delete, save\<close>

lemma set_set_of_array: "set (set_of_array xs) = set xs"
  by (simp add: set_of_array_def)

lemma ledger_entry_toggle:
  "ledger_entry (toggle h d s) d =
     (if hid h \<in> set (ledger_entry s d)
      then removeAll (hid h) (set_of_array (ledger_entry s d))
      else set_of_array (ledger_entry s d) @ [hid h])"
proof -
  have "ledger_entry (s\<lparr>completions := (completions s)(d \<mapsto> l)\<rparr>) d = l" for l
    by (simp add: ledger_entry_def)
  then show ?thesis by (simp add: toggle_def Let_def set_set_of_array)
qed

lemma set_ledger_entry_toggle:
  "set (ledger_entry (toggle h d s) d) =
     (if hid h \<in> set (ledger_entry s d) then set (ledger_entry s d) - {hid h}
      else insert (hid h) (set (ledger_entry s d)))"
  by (simp add: ledger_entry_toggle set_set_of_array)

lemma hasCompleted_ledger_entry: "hasCompleted s d x = (x \<in> set (ledger_entry s d))"
  by (simp add: hasCompleted_def ledger_entry_def split: option.splits)

text \<open>
  Claim C7. Two calls of \<open>toggle\<close> with the same habit and date give back the ledger
  entry of that date as a set of ids, an absent entry counting as the empty one; every
  query \<open>hasCompleted\<close> on that date answers as before; the entries of all other
  dates are untouched; and neither call changes the habit array.
\<close>

theorem toggle_twice:
  "set (ledger_entry (toggle h d (toggle h d s)) d) = set (ledger_entry s d)
   \<and> hasCompleted (toggle h d (toggle h d s)) d x = hasCompleted s d x
   \<and> habits (toggle h d s) = habits s
   \<and> habits (toggle h d (toggle h d s)) = habits s
   \<and> (d' \<noteq> d \<longrightarrow> completions (toggle h d (toggle h d s)) d' = completions s d')"
proof -
  have A: "set (ledger_entry (toggle h d (toggle h d s)) d) = set (ledger_entry s d)"
    by (auto simp: set_ledger_entry_toggle)
  have B: "habits (toggle h d s') = habits s'" for s'
    by (simp add: toggle_def Let_def)
  have C: "d' \<noteq> d \<Longrightarrow> completions (toggle h d s') d' = completions s' d'" for s'
    by (simp add: toggle_def Let_def)
  show ?thesis using A B C by (simp add: hasCompleted_ledger_entry)
qed

theorem toggle_twice_witness:
  "set (ledger_entry (toggle (sample_habit ''h1'' 0) ''2024-01-05''
          (toggle (sample_habit ''h1'' 0) ''2024-01-05'' sample_store)) ''2024-01-05'')
     = set (ledger_entry sample_store ''2024-01-05'')
   \<and> ''2024-01-04'' \<noteq> ''2024-01-05''
   \<and> completions (toggle (sample_habit ''h1'' 0) ''2024-01-05''
          (toggle (sample_habit ''h1'' 0) ''2024-01-05'' sample_store)) ''2024-01-04''
     = completions sample_store ''2024-01-04''"
  using toggle_twice [of "sample_habit ''h1'' 0" "''2024-01-05''" sample_store x "''2024-01-04''"]
  by simp

lemma mset_filter_split: "mset xs = mset (filter (\<lambda>x. \<not> P x) xs) + mset (filter P xs)"
  by (induction xs) auto

lemma length_filter_split:
  "length xs = length (filter (\<lambda>x. \<not> P x) xs) + length (filter P xs)"
  by (induction xs) auto

text \<open>
  Claim C9. Once the user has confirmed, \<open>deleteHabit\<close> keeps, in their order, the
  habit objects whose id is not the given one and drops the others, so no object
  with that id is left, the store is unchanged when no object has the id, and exactly
  one object goes when exactly one has it. The ledger is the same function from dates
  to id lists as before, whatever the answer to the dialog; ids of deleted habits stay
  in it. A declined dialog leaves the store as it is.
\<close>

theorem deleteHabit_frame:
  "completions (deleteHabit c i s) = completions s
   \<and> habits (deleteHabit True i s) = filter (\<lambda>h. obj_id h \<noteq> Some i) (habits s)
   \<and> Some i \<notin> obj_id ` set (habits (deleteHabit True i s))
   \<and> (Some i \<notin> obj_id ` set (habits s) \<longrightarrow> deleteHabit True i s = s)
   \<and> mset (habits s) = mset (habits (deleteHabit True i s))
                          + mset (filter (\<lambda>h. obj_id h = Some i) (habits s))
   \<and> (length (filter (\<lambda>h. obj_id h = Some i) (habits s)) = 1 \<longrightarrow>
        length (habits (deleteHabit True i s)) + 1 = length (habits s))
   \<and> deleteHabit False i s = s"
proof -
  let ?keep = "filter (\<lambda>h. obj_id h \<noteq> Some i) (habits s)"
  let ?gone = "filter (\<lambda>h. obj_id h = Some i) (habits s)"
  have H: "habits (deleteHabit True i s) = ?keep" by (simp add: deleteHabit_def)
  have frame: "completions (deleteHabit c i s) = completions s" by (simp add: deleteHabit_def)
  have same: "?keep = habits s" if "Some i \<notin> obj_id ` set (habits s)"
    using that by (auto simp: filter_id_conv intro: rev_image_eqI)
  have noop: "deleteHabit True i s = s" if "Some i \<notin> obj_id ` set (habits s)"
    using same[OF that] by (simp add: deleteHabit_def)
  have parts: "mset (habits s) = mset ?keep + mset ?gone"
    by (rule mset_filter_split)
  have count: "length (habits s) = length ?keep + length ?gone"
    by (rule length_filter_split)
  have none: "Some i \<notin> obj_id ` set ?keep" by auto
  have declined: "deleteHabit False i s = s" by (simp add: deleteHabit_def)
  show ?thesis unfolding H using frame noop parts count none declined by simp
qed

theorem deleteHabit_frame_witness:
  "habits (deleteHabit True ''b'' three_habits)
     = [Habit (sample_habit ''a'' 0), Habit (sample_habit ''c'' 2)]
   \<and> completions (deleteHabit True ''h1'' sample_store) = completions sample_store
   \<and> length (filter (\<lambda>h. obj_id h = Some ''b'') (habits three_habits)) = 1
   \<and> length (habits (deleteHabit True ''b'' three_habits)) + 1 = length (habits three_habits)
   \<and> Some ''z'' \<notin> obj_id ` set (habits three_habits)
   \<and> deleteHabit True ''z'' three_habits = three_habits"
proof -
  have one: "length (filter (\<lambda>h. obj_id h = Some ''b'') (habits three_habits)) = 1"
    by (simp add: three_habits_def sample_habit_def)
  have absent: "Some ''z'' \<notin> obj_id ` set (habits three_habits)"
    by (simp add: three_habits_def sample_habit_def)
  have kept: "filter (\<lambda>h. obj_id h \<noteq> Some ''b'') (habits three_habits)
                = [Habit (sample_habit ''a'' 0), Habit (sample_habit ''c'' 2)]"
    by (simp add: three_habits_def sample_habit_def)
  have b: "habits (deleteHabit True ''b'' three_habits)
             = filter (\<lambda>h. obj_id h \<noteq> Some ''b'') (habits three_habits)
           \<and> length (habits (deleteHabit True ''b'' three_habits)) + 1 = length (habits three_habits)"
    using deleteHabit_frame [of True "''b''" three_habits] one by blast
  have z: "deleteHabit True ''z'' three_habits = three_habits"
    using deleteHabit_frame [of True "''z''" three_habits] absent by blast
  have l: "completions (deleteHabit True ''h1'' sample_store) = completions sample_store"
    using deleteHabit_frame [of True "''h1''" sample_store] by blast
  have hb: "habits (deleteHabit True ''b'' three_habits)
              = [Habit (sample_habit ''a'' 0), Habit (sample_habit ''c'' 2)]"
    using b kept by (simp only:)
  show ?thesis using one absent hb b z l by blast
qed

lemma find_Some_ex: "(\<exists>y. find P xs = Some y) = (\<exists>x\<in>set xs. P x)"
  by (metis find_None_iff not_None_eq)

lemma habits_saveHabit:
  "habits (saveHabit h s) =
      (if Some (hid h) \<in> obj_id ` set (habits s)
       then map (\<lambda>x. if obj_id x = Some (hid h) then Habit h else x) (habits s)
       else habits s @ [Habit h])"
proof -
  have "(\<exists>y. find (\<lambda>x. obj_id x = Some (hid h)) (habits s) = Some y)
          = (Some (hid h) \<in> obj_id ` set (habits s))"
    unfolding find_Some_ex by (force simp: image_iff)
  then show ?thesis by (simp add: saveHabit_def Let_def)
qed

lemma trim_blank: "(trim s = []) = list_all is_space s"
  unfolding list_all_iff
proof
  assume "trim s = []"
  then have A: "\<forall>x\<in>set (dropWhile is_space s). is_space x"
    by (simp add: trim_def dropWhile_eq_Nil_conv)
  have "dropWhile is_space s = []"
  proof (rule ccontr)
    assume ne: "dropWhile is_space s \<noteq> []"
    then have "\<not> is_space (hd (dropWhile is_space s))" by (rule hd_dropWhile)
    moreover have "hd (dropWhile is_space s) \<in> set (dropWhile is_space s)"
      using ne by simp
    ultimately show False using A by blast
  qed
  then show "\<forall>c\<in>set s. is_space c" by (simp add: dropWhile_eq_Nil_conv)
next
  assume "\<forall>c\<in>set s. is_space c"
  then show "trim s = []" by (auto simp: trim_def dest: set_dropWhileD)
qed

text \<open>
  Claim C5, as the code has it. \<open>saveHabit\<close> itself checks nothing: for every habit,
  one with a blank name included, it puts the habit in the place of every object
  with the same id, or appends it when there is none, and leaves the ledger alone.
  Blank names are stopped before \<open>saveHabit\<close> is called: the Save button of the edit
  dialog is disabled for an empty or all-white-space name and the quick-add field
  ignores one, and then the store stays as it is; white space is what \<open>trim\<close>
  strips, the no-break and the ideographic space included. A name that is not blank
  goes from the dialog to \<open>saveHabit\<close> as it is.
\<close>

theorem saveHabit_unguarded:
  "habits (saveHabit h s) =
      (if Some (hid h) \<in> obj_id ` set (habits s)
       then map (\<lambda>x. if obj_id x = Some (hid h) then Habit h else x) (habits s)
       else habits s @ [Habit h])
   \<and> completions (saveHabit h s) = completions s
   \<and> (list_all is_space (name h) \<longrightarrow> editDialog_save h s = s)
   \<and> (list_all is_space n \<longrightarrow> handleAddHabit env n s = s)
   \<and> (\<not> list_all is_space (name h) \<longrightarrow> editDialog_save h s = saveHabit h s)"
proof -
  have 1: "completions (saveHabit h s) = completions s"
    by (simp add: saveHabit_def Let_def)
  have 2: "editDialog_save h s = s" if "list_all is_space (name h)"
    using that trim_blank[of "name h"] by (simp add: editDialog_save_def)
  have 3: "handleAddHabit env n s = s" if "list_all is_space n"
    using that trim_blank[of n] by (simp add: handleAddHabit_def)
  have 4: "editDialog_save h s = saveHabit h s" if "\<not> list_all is_space (name h)"
  proof -
    have "trim (name h) \<noteq> []" using that trim_blank[of "name h"] by simp
    moreover have "name h \<noteq> []" using that by auto
    ultimately show ?thesis by (simp add: editDialog_save_def)
  qed
  show ?thesis using habits_saveHabit[of h s] 1 2 3 4 by blast
qed

theorem saveHabit_unguarded_witness:
  "list_all is_space (name blank_habit)
   \<and> editDialog_save blank_habit three_habits = three_habits
   \<and> handleAddHabit sample_add_env (name blank_habit) three_habits = three_habits
   \<and> list_all is_space (name unnamed_habit)
   \<and> editDialog_save unnamed_habit three_habits = three_habits
   \<and> \<not> list_all is_space (name (sample_habit ''b'' 1))
   \<and> editDialog_save (sample_habit ''b'' 1) three_habits = saveHabit (sample_habit ''b'' 1) three_habits"
proof -
  have b: "list_all is_space (name blank_habit)"
    by (simp add: blank_habit_def sample_habit_def is_space_def)
  have u: "list_all is_space (name unnamed_habit)"
    by (simp add: unnamed_habit_def sample_habit_def)
  have nb: "\<not> list_all is_space (name (sample_habit ''b'' 1))"
    by (simp add: sample_habit_def is_space_def)
  show ?thesis
    using saveHabit_unguarded [of blank_habit three_habits "name blank_habit" sample_add_env]
          saveHabit_unguarded [of unnamed_habit three_habits "[]" sample_add_env]
          saveHabit_unguarded [of "sample_habit ''b'' 1" three_habits "[]" sample_add_env] b u nb
    by blast
qed

text \<open>
  \<open>saveHabit\<close> called with a habit whose name is all white space, and with one whose
  name is empty: each is appended to the three habits of the store.
\<close>

theorem saveHabit_blank_counterexample:
  "list_all is_space (name blank_habit)
   \<and> habits (saveHabit blank_habit three_habits) = habits three_habits @ [Habit blank_habit]
   \<and> habits (saveHabit blank_habit three_habits) \<noteq> habits three_habits
   \<and> name unnamed_habit = []
   \<and> habits (saveHabit unnamed_habit three_habits) = habits three_habits @ [Habit unnamed_habit]
   \<and> habits (saveHabit unnamed_habit three_habits) \<noteq> habits three_habits"
  by (simp add: blank_habit_def unnamed_habit_def sample_habit_def is_space_def saveHabit_def
        three_habits_def)

section \<open>Store: reorder\<close>

lemma splice_start_lt: "len \<noteq> 0 \<Longrightarrow> start < int len \<Longrightarrow> splice_start start len < len"
  by (auto simp: splice_start_def)

lemma splice_start_le: "splice_start start len \<le> len"
  by (auto simp: splice_start_def)

lemma splice_remove_one:
  assumes "i < length xs" "i = splice_start start (length xs)"
  shows "array_splice xs start 1 [] = ([xs ! i], take i xs @ drop (Suc i) xs)"
proof -
  have "take 1 (drop i xs) = [xs ! i]" using assms(1)
    by (simp add: take_Suc_conv_app_nth Cons_nth_drop_Suc[symmetric])
  then show ?thesis using assms by (simp add: array_splice_def Let_def min_def)
qed

lemma splice_insert:
  "array_splice xs start 0 [x] = ([], take (splice_start start (length xs)) xs @ [x] @ drop (splice_start start (length xs)) xs)"
  by (simp add: array_splice_def Let_def)

lemma map_spread_order_idx:
  "map obj_order (map (\<lambda>(h, i). spread_order h i) (zip ys [k..<k + length ys])) = map int [k..<k + length ys]"
proof (induction ys arbitrary: k)
  case Nil then show ?case by simp
next
  case (Cons y ys)
  have "[k..<k + length (y # ys)] = k # [Suc k..<Suc k + length ys]"
    by (simp add: upt_rec)
  moreover have "obj_order (spread_order y k) = int k"
    by (cases "(y, k)" rule: spread_order.cases) auto
  ultimately show ?case using Cons.IH[of "Suc k"] by simp
qed

lemma forget_spread: "forget_order (spread_order (Some x) i) = forget_order x"
  by (cases x) (auto simp: forget_order_def)

lemma map_forget_spread:
  "map forget_order (map (\<lambda>(h, i). spread_order h i) (zip (map Some xs) [k..<k + length xs])) = map forget_order xs"
proof (induction xs arbitrary: k)
  case Nil then show ?case by simp
next
  case (Cons x xs)
  have "[k..<k + length (x # xs)] = k # [Suc k..<Suc k + length xs]"
    by (simp add: upt_rec)
  then show ?case using Cons.IH[of "Suc k"] by (simp add: forget_spread)
qed

lemma length_move_elem: "i < length xs \<Longrightarrow> length (move_elem xs i j) = length xs"
  by (auto simp: move_elem_def Let_def)

lemma mset_move_elem:
  assumes "i < length xs"
  shows "mset (move_elem xs i j) = mset xs"
proof -
  define rest where "rest = take i xs @ drop (Suc i) xs"
  have "mset (move_elem xs i j) = mset (take j rest) + mset (drop j rest) + {#xs ! i#}"
    unfolding move_elem_def Let_def rest_def[symmetric] by simp
  also have "\<dots> = mset rest + {#xs ! i#}"
    by (metis append_take_drop_id mset_append)
  also have "\<dots> = mset (take i xs @ [xs ! i] @ drop (Suc i) xs)"
    by (simp add: rest_def)
  also have "take i xs @ [xs ! i] @ drop (Suc i) xs = xs"
    using assms by (simp add: Cons_nth_drop_Suc)
  finally show ?thesis .
qed

lemma reorder_habits:
  assumes "habits s \<noteq> []" "from < int (length (habits s))"
    and hs: "hs = sort_key obj_order (habits s)"
    and i: "i = splice_start from (length hs)"
    and j: "j = splice_start to (length hs - 1)"
  shows "habits (reorder from to s) =
     map (\<lambda>(h, k). spread_order h k) (zip (map Some (move_elem hs i j)) [0..<length hs])"
proof -
  have len: "length hs = length (habits s)" by (simp add: hs)
  have il: "i < length hs" unfolding i using assms(1,2) len
    by (intro splice_start_lt) auto
  define rest where "rest = take i hs @ drop (Suc i) hs"
  have lrest: "length rest = length hs - 1" using il by (auto simp: rest_def)
  have 1: "array_splice (map Some hs) from 1 [] = ([Some (hs ! i)], map Some rest)"
    using splice_remove_one[of i "map Some hs" "from"] il
    by (simp add: i rest_def take_map drop_map)
  have 2: "array_splice (map Some rest) to 0 [Some (hs ! i)] = ([], map Some (move_elem hs i j))"
    unfolding splice_insert move_elem_def Let_def rest_def[symmetric]
    by (simp add: lrest j take_map drop_map)
  have "habits (reorder from to s) =
     map (\<lambda>(h, k). spread_order h k)
       (zip (map Some (move_elem hs i j)) [0..<length (map Some (move_elem hs i j))])"
    by (simp add: reorder_def hs[symmetric] Let_def 1[unfolded One_nat_def] 2)
  then show ?thesis using il by (simp add: length_move_elem)
qed

text \<open>
  Claim C3, as the code has it. For a store with at least one habit and a \<open>from\<close>
  below the number of habits (a negative \<open>from\<close> counts from the end and stops at 0)
  and any \<open>to\<close> (clamped by \<open>splice\<close> to the positions of the shortened array),
  the result holds the same habit objects with \<open>order\<close> rewritten: the orders are
  0, 1, ..., N - 1 in array order, the objects apart from \<open>order\<close> are the old ones
  with one of them moved, and the ledger is untouched. Nothing is said of a \<open>from\<close>
  at or past the end, nor of the empty store.
\<close>

theorem reorder_in_range:
  assumes "habits s \<noteq> []" "from < int (length (habits s))"
  shows "map obj_order (habits (reorder from to s)) = map int [0..<length (habits s)]
       \<and> mset (map forget_order (habits (reorder from to s))) = mset (map forget_order (habits s))
       \<and> length (habits (reorder from to s)) = length (habits s)
       \<and> completions (reorder from to s) = completions s
       \<and> map forget_order (habits (reorder from to s)) =
           map forget_order (move_elem (sort_key obj_order (habits s))
              (splice_start from (length (habits s))) (splice_start to (length (habits s) - 1)))"
proof -
  define hs where "hs = sort_key obj_order (habits s)"
  define i where "i = splice_start from (length hs)"
  define j where "j = splice_start to (length hs - 1)"
  have len: "length hs = length (habits s)" by (simp add: hs_def)
  have il: "i < length hs" unfolding i_def using assms len
    by (intro splice_start_lt) auto
  have lm: "length (move_elem hs i j) = length hs" using il by (rule length_move_elem)
  have H: "habits (reorder from to s) =
     map (\<lambda>(h, k). spread_order h k) (zip (map Some (move_elem hs i j)) [0..<0 + length (map Some (move_elem hs i j))])"
    using reorder_habits[OF assms hs_def i_def j_def] lm by simp
  have A: "map obj_order (habits (reorder from to s)) = map int [0..<length (habits s)]"
    unfolding H map_spread_order_idx using lm len by simp
  have F: "map forget_order (habits (reorder from to s)) = map forget_order (move_elem hs i j)"
    using map_forget_spread[where k = 0 and xs = "move_elem hs i j"] H by simp
  have B: "mset (map forget_order (habits (reorder from to s))) = mset (map forget_order (habits s))"
    unfolding F using mset_move_elem[OF il, of j] by (simp add: hs_def)
  have C: "length (habits (reorder from to s)) = length (habits s)"
    using A by (metis length_map length_upt minus_nat.diff_0)
  have D: "completions (reorder from to s) = completions s"
    by (simp add: reorder_def Let_def split: prod.splits)
  show ?thesis using A B C D F by (simp add: hs_def i_def j_def)
qed


theorem reorder_in_range_witness:
  "habits three_habits \<noteq> []
   \<and> (0 :: int) < int (length (habits three_habits))
   \<and> map obj_order (habits (reorder 0 7 three_habits)) = map int [0..<length (habits three_habits)]
   \<and> length (habits (reorder 0 7 three_habits)) = length (habits three_habits)
   \<and> mset (map forget_order (habits (reorder 0 7 three_habits)))
        = mset (map forget_order (habits three_habits))"
proof -
  have ne: "habits three_habits \<noteq> []" by (simp add: three_habits_def)
  have lt: "(0 :: int) < int (length (habits three_habits))" by (simp add: three_habits_def)
  from reorder_in_range [OF ne lt, of 7] ne lt show ?thesis by blast
qed

text \<open>
  A store with one habit, of order 0, and \<open>reorder(5, 0)\<close>: nothing is removed,
  \<open>undefined\<close> is inserted, and the result has two objects, the first of them
  \<open>{ order: 0 }\<close> and no habit at all.
\<close>

theorem reorder_out_of_range_counterexample:
  "map obj_order (habits one_habit) = [0]
   \<and> habits (reorder 5 0 one_habit) = [OrderOnly 0, Habit (sample_habit ''a'' 1)]
   \<and> length (habits (reorder 5 0 one_habit)) \<noteq> length (habits one_habit)"
  by (simp add: one_habit_def sample_habit_def reorder_def array_splice_def splice_start_def
        Let_def upt_rec)

lemma reorder_from_end:
  "habits (reorder (- 1) 0 three_habits)
     = [Habit (sample_habit ''c'' 0), Habit (sample_habit ''a'' 1), Habit (sample_habit ''b'' 2)]"
  by (simp add: three_habits_def sample_habit_def reorder_def array_splice_def splice_start_def
        Let_def upt_rec)

section \<open>Calendar: the month range\<close>

lemma monthRange_loop_length:
  "monthRange_loop step endIso days d = Inr r \<Longrightarrow> length days \<le> 40 \<Longrightarrow>
   length days < length r \<and> length r \<le> 41"
proof (induction "40 - length days" arbitrary: days d)
  case 0
  then have "length days = 40" by simp
  then show ?case using "0.prems"(1)
    by (subst (asm) monthRange_loop.simps) (auto simp: Let_def split: sum.splits if_splits)
next
  case (Suc n)
  then have l: "length days < 40" by simp
  have n: "n = 40 - length (days @ [d])" using Suc.hyps(2) by simp
  have rec: "\<forall>d'. monthRange_loop step endIso (days @ [d]) d' = Inr r \<longrightarrow>
                 length days < length r \<and> length r \<le> 41"
  proof (intro allI impI)
    fix d' assume "monthRange_loop step endIso (days @ [d]) d' = Inr r"
    from Suc.hyps(1)[OF n this] l show "length days < length r \<and> length r \<le> 41" by simp
  qed
  show ?case using Suc.prems(1) l rec
    by (subst (asm) monthRange_loop.simps)
       (auto simp: Let_def split: sum.splits if_splits)
qed

lemma monthRange_loop_returns:
  assumes total: "\<And>x. \<exists>y. step x = Inr y"
  shows "length days \<le> 40 \<Longrightarrow> \<exists>r. monthRange_loop step (Inr e) days d = Inr r"
proof (induction "40 - length days" arbitrary: days d)
  case 0
  obtain d' where st: "step d = Inr d'" using total by blast
  from 0 have "length days = 40" by simp
  then show ?case using st
    by (subst monthRange_loop.simps) (simp add: Let_def)
next
  case (Suc n)
  obtain d' where st: "step d = Inr d'" using total by blast
  from Suc have l: "length days < 40" by simp
  have n: "n = 40 - length (days @ [d])" using Suc.hyps(2) by simp
  have "\<exists>r. monthRange_loop step (Inr e) (days @ [d]) d' = Inr r"
    using Suc.hyps(1)[OF n] l by simp
  then show ?case using st l
    by (subst monthRange_loop.simps) (simp add: Let_def)
qed

lemma monthRange_loop_stuck:
  "step d = Inr d \<Longrightarrow> d \<noteq> e \<Longrightarrow> length days \<le> 40 \<Longrightarrow>
   monthRange_loop step (Inr e) days d = Inr (days @ replicate (41 - length days) d)"
proof (induction "40 - length days" arbitrary: days)
  case 0
  then have "length days = 40" by simp
  then show ?case using 0
    by (simp add: monthRange_loop.simps[of step "Inr e" days d])
next
  case (Suc n)
  then have l: "length days < 40" by simp
  have "monthRange_loop step (Inr e) (days @ [d]) d = Inr ((days @ [d]) @ replicate (41 - length (days @ [d])) d)"
    using Suc by (intro Suc.hyps) auto
  moreover have "replicate (41 - length days) d = d # replicate (41 - length (days @ [d])) d"
    using l by (cases "41 - length days") auto
  ultimately show ?case using Suc.prems l
    by (simp add: monthRange_loop.simps[of step "Inr e" days d])
qed


lemma monthRange_is_loop:
  "monthRange off s = Inr r \<Longrightarrow> \<exists>step endIso d. monthRange_loop step endIso [] d = Inr r"
  by (auto simp: monthRange_def Let_def split: sum.splits option.splits prod.splits)

text \<open>
  Claim C10. \<open>monthRange\<close> is a total function of the zone and the input string: it
  ends with an error (an exception of the date functions) or with a list, and a list
  it returns has at least one and at most 41 entries. The bound is that of the loop
  alone, whatever function takes the place of \<open>addDays\<close> and whatever \<open>isoDate(end)\<close>
  gives. When that function always returns and the end date is a string, the loop
  returns a list of at least one and at most 41 entries, also when the dates never
  reach the end date.
\<close>

theorem monthRange_capped:
  "(case monthRange off s of Inl err \<Rightarrow> True | Inr days \<Rightarrow> days \<noteq> [] \<and> length days \<le> 41)
   \<and> (case monthRange_loop step endIso [] d of
          Inl err \<Rightarrow> True | Inr days \<Rightarrow> days \<noteq> [] \<and> length days \<le> 41)
   \<and> ((\<forall>x. \<exists>y. step x = Inr y) \<longrightarrow>
        (\<exists>days. monthRange_loop step (Inr e) [] d = Inr days \<and> days \<noteq> [] \<and> length days \<le> 41))"
proof -
  have L: "case monthRange_loop step' endIso' [] d' of
             Inl err \<Rightarrow> True | Inr days \<Rightarrow> days \<noteq> [] \<and> length days \<le> 41" for step' endIso' d'
  proof (cases "monthRange_loop step' endIso' [] d'")
    case (Inl a)
    then show ?thesis by simp
  next
    case (Inr r)
    from monthRange_loop_length[OF Inr] Inr show ?thesis by auto
  qed
  have A: "case monthRange off s of Inl err \<Rightarrow> True | Inr days \<Rightarrow> days \<noteq> [] \<and> length days \<le> 41"
  proof (cases "monthRange off s")
    case (Inl a)
    then show ?thesis by simp
  next
    case (Inr r)
    then obtain step' endIso' d' where "monthRange_loop step' endIso' [] d' = Inr r"
      using monthRange_is_loop by blast
    with L[of step' endIso' d'] Inr show ?thesis by simp
  qed
  have B: "\<exists>days. monthRange_loop step (Inr e) [] d = Inr days \<and> days \<noteq> [] \<and> length days \<le> 41"
    if total: "\<forall>x. \<exists>y. step x = Inr y"
  proof -
    obtain r where r: "monthRange_loop step (Inr e) [] d = Inr r"
      using monthRange_loop_returns[of step "[]" e d] total by auto
    from monthRange_loop_length[OF r] have "r \<noteq> [] \<and> length r \<le> 41" by auto
    with r show ?thesis by blast
  qed
  show ?thesis using A L[of step endIso d] B by blast
qed

theorem monthRange_capped_witness:
  "(\<exists>days. monthRange_loop Inr (Inr ''2024-02-29'') [] ''2024-02-01'' = Inr days
            \<and> days \<noteq> [] \<and> length days \<le> 41)
   \<and> monthRange_loop Inr (Inr ''2024-02-29'') [] ''2024-02-01'' = Inr (replicate 41 ''2024-02-01'')"
proof -
  have total: "\<forall>x :: string. \<exists>y. (Inr x :: error + string) = Inr y" by simp
  have stuck: "monthRange_loop Inr (Inr ''2024-02-29'') [] ''2024-02-01''
                 = Inr (replicate 41 ''2024-02-01'')"
    using monthRange_loop_stuck[of Inr "''2024-02-01''" "''2024-02-29''" "[]"] by simp
  from monthRange_capped [of 0 "''2024-02-10''" Inr "Inr ''2024-02-29''" "''2024-02-01''" "''2024-02-29''"]
    total stuck
  show ?thesis by blast
qed

lemma split_feb: "split_on CHR ''-'' ''2024-02-10'' = [''2024'', ''02'', ''10'']"
  by code_simp

lemma part_feb:
  "part [''2024'', ''02'', ''10''] 0 = Inr (Some 2024)"
  "part [''2024'', ''02'', ''10''] 1 = Inr (Some 2)"
  by code_simp+

lemma first_feb: "dec (nat 2024) @ ''-'' @ padStart2 (dec (nat 2)) @ ''-01'' = ''2024-02-01''"
  by code_simp

lemma start_feb: "parse_local (- 300) ''2024-02-01'' = Inr 1706763600000"
  by code_simp

lemma iso_start_feb: "isoDate (- 300) (Some 1706763600000) = Inr ''2024-02-01''"
  by code_simp

lemma iso_end_feb: "isoDate (- 300) (Date_UTC (Some 2024) (Some 2) (Some 0)) = Inr ''2024-02-28''"
  by code_simp

lemma addDays_stuck_feb: "addDays (- 300) ''2024-02-01'' 1 = Inr ''2024-02-01''"
  by code_simp

lemma monthRange_cap_fires:
  "monthRange (- 300) ''2024-02-10'' = Inr (replicate 41 ''2024-02-01'')"
proof -
  have "monthRange (- 300) ''2024-02-10''
          = monthRange_loop (\<lambda>d. addDays (- 300) d 1) (Inr ''2024-02-28'') [] ''2024-02-01''"
    unfolding monthRange_def Let_def split_feb part_feb
    by (simp only: sum.case option.case prod.case first_feb start_feb iso_start_feb iso_end_feb)
  also have "\<dots> = Inr ([] @ replicate (41 - length ([] :: string list)) ''2024-02-01'')"
    by (rule monthRange_loop_stuck) (simp_all add: addDays_stuck_feb)
  finally show ?thesis by simp
qed

section \<open>Calendar: sample days\<close>

lemma calendar_samples:
  "civil_from_days 0 = (1970, 1, 1)
   \<and> days_from_civil 2024 1 5 = 19727
   \<and> civil_from_days (days_from_civil 2024 2 28 + 1) = (2024, 2, 29)
   \<and> civil_from_days (days_from_civil 1900 2 28 + 1) = (1900, 3, 1)
   \<and> civil_from_days (days_from_civil 2000 2 28 + 1) = (2000, 2, 29)
   \<and> civil_from_days (days_from_civil 2023 12 31 + 1) = (2024, 1, 1)
   \<and> days_in_month 2024 2 = 29 \<and> days_in_month 2023 2 = 28 \<and> days_in_month 2024 12 = 31
   \<and> getDay 0 (19727 * ms_per_day) = 5"
  by code_simp

section \<open>Calendar: day arithmetic and the zone\<close>

text \<open>
  \<open>addDays\<close> computes on midnights of UTC and formats the result in the zone. From
  UTC up to 24 hours east of it the zone does not show: the result is that of UTC.
  West of UTC, down to 24 hours, a date that \<open>addDays\<close> returns for \<open>delta\<close> is the
  date UTC gives for \<open>delta - 1\<close>: every result is one day early.
\<close>

lemma addDays_via_instant:
  "addDays off s delta = (case addDays_instant s delta of Inl e \<Rightarrow> Inl e | Inr dt \<Rightarrow> isoDate off dt)"
  by (simp add: addDays_def addDays_instant_def Let_def split: sum.splits)

lemma time_clip_Some: "time_clip x = Some t \<Longrightarrow> t = x \<and> \<bar>x\<bar> \<le> 8640000000000000"
  by (simp add: time_clip_def split: if_splits)

lemma Date_UTC_midnight: "Date_UTC y m d = Some t \<Longrightarrow> t mod ms_per_day = 0"
proof -
  assume "Date_UTC y m d = Some t"
  then obtain k where "time_clip (k * ms_per_day) = Some t"
    by (simp add: Date_UTC_def Let_def split: option.splits) 
  then have "t = k * ms_per_day" using time_clip_Some by blast
  then show ?thesis by simp
qed

lemma setUTCDate_Some:
  "setUTCDate dt n = Some t' \<Longrightarrow>
   \<exists>t k y m d. dt = Some t \<and> n = Some k \<and> civil_from_days (t div ms_per_day) = (y, m, d)
      \<and> time_clip ((days_from_civil y m 1 + k - 1) * ms_per_day + t mod ms_per_day) = Some t'"
  by (cases dt; cases n) (auto simp: setUTCDate_def split: prod.splits)

lemma setUTCDate_midnight:
  "setUTCDate (Some t) n = Some t' \<Longrightarrow> t mod ms_per_day = 0 \<Longrightarrow> t' mod ms_per_day = 0"
proof -
  assume a: "setUTCDate (Some t) n = Some t'" and z: "t mod ms_per_day = 0"
  from setUTCDate_Some[OF a] z obtain x where "time_clip (x * ms_per_day) = Some t'"
    by auto
  then have "t' = x * ms_per_day" using time_clip_Some by blast
  then show ?thesis by simp
qed

lemma addDays_instant_Some:
  "addDays_instant s delta = Inr (Some t) \<Longrightarrow>
   \<exists>y m d n. setUTCDate (Date_UTC y m d) n = Some t"
  unfolding addDays_instant_def Let_def
  by (simp split: sum.splits) blast

lemma addDays_instant_midnight:
  "addDays_instant s delta = Inr (Some t) \<Longrightarrow> t mod ms_per_day = 0"
proof -
  assume a: "addDays_instant s delta = Inr (Some t)"
  then obtain y m d n where st: "setUTCDate (Date_UTC y m d) n = Some t"
    using addDays_instant_Some by blast
  from setUTCDate_Some[OF st] obtain t0 where t0: "Date_UTC y m d = Some t0" by blast
  then have "t0 mod ms_per_day = 0" by (rule Date_UTC_midnight)
  with st t0 show ?thesis using setUTCDate_midnight by simp
qed

lemma div_shift: "(m::int) > 0 \<Longrightarrow> (x + k * m) div m = x div m + k"
  by simp

lemma day_of_midnight_east:
  assumes "0 \<le> off" "off < 1440" "t mod ms_per_day = 0"
  shows "(t + off * 60000) div ms_per_day = t div ms_per_day"
proof -
  have t: "t = (t div ms_per_day) * ms_per_day" using assms(3) by auto
  have x: "(off * 60000) div ms_per_day = 0"
    using assms(1,2) by (intro div_pos_pos_trivial) (auto simp: ms_per_day_def)
  have "(t + off * 60000) div ms_per_day = (off * 60000 + (t div ms_per_day) * ms_per_day) div ms_per_day"
    using t by (simp add: add.commute)
  also have "\<dots> = (off * 60000) div ms_per_day + t div ms_per_day"
    by (rule div_shift) (simp add: ms_per_day_def)
  finally show ?thesis using x by simp
qed

lemma day_of_midnight_west:
  assumes "- 1440 \<le> off" "off < 0" "t mod ms_per_day = 0"
  shows "(t + off * 60000) div ms_per_day = t div ms_per_day - 1"
proof -
  have t: "t = (t div ms_per_day) * ms_per_day" using assms(3) by auto
  have x: "(off * 60000 + 1 * ms_per_day) div ms_per_day = 0"
    using assms(1,2) by (intro div_pos_pos_trivial) (auto simp: ms_per_day_def)
  have "(off * 60000 + 1 * ms_per_day) div ms_per_day = (off * 60000) div ms_per_day + 1"
    by (rule div_shift) (simp add: ms_per_day_def)
  with x have x': "(off * 60000) div ms_per_day = - 1" by simp
  have "(t + off * 60000) div ms_per_day = (off * 60000 + (t div ms_per_day) * ms_per_day) div ms_per_day"
    using t by (simp add: add.commute)
  also have "\<dots> = (off * 60000) div ms_per_day + t div ms_per_day"
    by (rule div_shift) (simp add: ms_per_day_def)
  finally show ?thesis using x' by simp
qed

lemma isoDate_midnight_east:
  "0 \<le> off \<Longrightarrow> off < 1440 \<Longrightarrow> t mod ms_per_day = 0 \<Longrightarrow> isoDate off (Some t) = isoDate 0 (Some t)"
  by (simp add: isoDate_def day_of_midnight_east)

lemma addDays_east:
  assumes "0 \<le> off" "off < 1440"
  shows "addDays off s delta = addDays 0 s delta"
proof (cases "addDays_instant s delta")
  case (Inl e)
  then show ?thesis by (simp add: addDays_via_instant)
next
  case (Inr dt)
  show ?thesis
  proof (cases dt)
    case None
    with Inr show ?thesis by (simp add: addDays_via_instant isoDate_def)
  next
    case (Some t)
    with Inr have "t mod ms_per_day = 0" using addDays_instant_midnight by blast
    with assms have "isoDate off (Some t) = isoDate 0 (Some t)" by (rule isoDate_midnight_east)
    with Inr Some show ?thesis by (simp add: addDays_via_instant)
  qed
qed

lemma civil_year_bound:
  "fst (civil_from_days z) \<le> ((z + 719468) div 146097) * 400 + 401"
proof -
  define x where "x = z + 719468"
  define era where "era = x div 146097"
  define doe where "doe = x - era * 146097"
  define n where "n = doe - doe div 1460 + doe div 36524 - doe div 146096"
  define yoe where "yoe = n div 365"
  have doe: "doe = x mod 146097" unfolding doe_def era_def by (simp add: minus_div_mult_eq_mod)
  have doe0: "0 \<le> doe" and doe1: "doe \<le> 146096" unfolding doe by simp_all
  have a: "0 \<le> doe div 1460" using doe0 by simp
  have c: "0 \<le> doe div 146096" using doe0 by simp
  have "doe div 36524 \<le> 146096 div 36524" using doe1 by (intro zdiv_mono1) simp_all
  then have b: "doe div 36524 \<le> 4" by simp
  have "n \<le> 146100" unfolding n_def using a b c doe1 by linarith
  then have "n div 365 \<le> 146100 div 365" by (intro zdiv_mono1) simp_all
  then have yoe: "yoe \<le> 400" unfolding yoe_def by simp
  have "fst (civil_from_days z) \<le> yoe + era * 400 + 1"
    unfolding civil_from_days_def Let_def x_def[symmetric] era_def[symmetric]
      doe_def[symmetric] n_def[symmetric] yoe_def[symmetric]
    by (simp only: fst_conv split: if_split) simp
  with yoe show ?thesis unfolding era_def x_def by linarith
qed

lemma year_ge_1_day:
  assumes "civil_from_days z = (y, m, d)" "1 \<le> y"
  shows "- 1000000 \<le> z"
proof (rule ccontr)
  assume "\<not> - 1000000 \<le> z"
  then have "z + 719468 \<le> - 280533" by simp
  then have "(z + 719468) div 146097 \<le> (- 280533) div 146097"
    by (intro zdiv_mono1) simp_all
  then have "(z + 719468) div 146097 \<le> - 2" by simp
  with civil_year_bound[of z] assms show False by simp
qed

lemma setUTCDate_pred:
  assumes "setUTCDate dt (map_option (\<lambda>k. k + delta) (getUTCDate dt)) = Some t"
      and "\<bar>t - ms_per_day\<bar> \<le> 8640000000000000"
  shows "setUTCDate dt (map_option (\<lambda>k. k + (delta - 1)) (getUTCDate dt)) = Some (t - ms_per_day)"
proof -
  from setUTCDate_Some[OF assms(1)] obtain t0 k y m d where
    dt: "dt = Some t0" and k: "map_option (\<lambda>k. k + delta) (getUTCDate dt) = Some k"
    and c: "civil_from_days (t0 div ms_per_day) = (y, m, d)"
    and tc: "time_clip ((days_from_civil y m 1 + k - 1) * ms_per_day + t0 mod ms_per_day) = Some t"
    by blast
  from k dt c have k': "k = d + delta" by (simp add: getUTCDate_def)
  from tc have t: "t = (days_from_civil y m 1 + k - 1) * ms_per_day + t0 mod ms_per_day"
    using time_clip_Some by blast
  have "(days_from_civil y m 1 + (d + (delta - 1)) - 1) * ms_per_day + t0 mod ms_per_day
          = t - ms_per_day"
    unfolding t k' by (simp add: algebra_simps)
  moreover have "time_clip (t - ms_per_day) = Some (t - ms_per_day)"
    using assms(2) by (simp add: time_clip_def)
  ultimately show ?thesis using dt c by (simp add: setUTCDate_def getUTCDate_def)
qed

lemma addDays_instant_pred:
  assumes "addDays_instant s delta = Inr (Some t)"
      and "\<bar>t - ms_per_day\<bar> \<le> 8640000000000000"
  shows "addDays_instant s (delta - 1) = Inr (Some (t - ms_per_day))"
proof -
  from assms(1) obtain y m d where
    p: "part (split_on CHR ''-'' s) 0 = Inr y" "part (split_on CHR ''-'' s) 1 = Inr m"
       "part (split_on CHR ''-'' s) 2 = Inr d"
    and st: "setUTCDate (Date_UTC y (map_option (\<lambda>m. m - 1) m) d)
               (map_option (\<lambda>k. k + delta) (getUTCDate (Date_UTC y (map_option (\<lambda>m. m - 1) m) d)))
             = Some t"
    unfolding addDays_instant_def Let_def by (simp split: sum.splits)
  from setUTCDate_pred[OF st assms(2)] p show ?thesis
    unfolding addDays_instant_def Let_def by simp
qed

lemma addDays_west:
  assumes off: "- 1440 \<le> off" "off < 0"
      and r: "addDays off s delta = Inr r"
  shows "addDays 0 s (delta - 1) = Inr r"
proof -
  from r obtain t where inst: "addDays_instant s delta = Inr (Some t)"
    and iso: "isoDate off (Some t) = Inr r"
    unfolding addDays_via_instant
    by (auto simp: isoDate_def split: sum.splits option.splits)
  have mid: "t mod ms_per_day = 0" using inst by (rule addDays_instant_midnight)
  have day: "(t + off * 60000) div ms_per_day = t div ms_per_day - 1"
    using off mid by (rule day_of_midnight_west)
  obtain y m d where c: "civil_from_days (t div ms_per_day - 1) = (y, m, d)"
    by (cases "civil_from_days (t div ms_per_day - 1)") auto
  from iso day c have y: "1 \<le> y"
    by (auto simp: isoDate_def split: if_splits)
  have lo: "- 1000000 \<le> t div ms_per_day - 1" using c y by (rule year_ge_1_day)
  have tk: "t = (t div ms_per_day) * ms_per_day" using mid by auto
  have "t - ms_per_day = (t div ms_per_day - 1) * ms_per_day"
    using tk by (simp add: algebra_simps)
  then have tm: "(t - ms_per_day) div ms_per_day = t div ms_per_day - 1"
    by (simp add: ms_per_day_def)
  have "\<bar>t\<bar> \<le> 8640000000000000"
    using inst addDays_instant_Some setUTCDate_Some time_clip_Some by metis
  moreover have "- 1000000 * ms_per_day \<le> (t div ms_per_day - 1) * ms_per_day"
    using lo by (simp add: ms_per_day_def)
  ultimately have clip: "\<bar>t - ms_per_day\<bar> \<le> 8640000000000000"
    using \<open>t - ms_per_day = (t div ms_per_day - 1) * ms_per_day\<close>
    by (simp add: ms_per_day_def)
  have inst': "addDays_instant s (delta - 1) = Inr (Some (t - ms_per_day))"
    using inst clip by (rule addDays_instant_pred)
  have "isoDate 0 (Some (t - ms_per_day)) = isoDate off (Some t)"
    by (simp add: isoDate_def day tm)
  with inst' iso show ?thesis by (simp add: addDays_via_instant)
qed

section \<open>Streak: the zone east of Greenwich\<close>

text \<open>
  The day of the week of a date does not depend on the zone, and from UTC up to 24
  hours east of it neither does \<open>addDays\<close>: there \<open>calcStreak\<close> computes what it
  computes in UTC.
\<close>

lemma getDay_local_midnight:
  "getDay off (k * ms_per_day - off * 60000) = (k + 4) mod 7"
  by (simp add: getDay_def ms_per_day_def)

lemma parse_local_shape:
  "\<exists>c k. parse_local off d = (if c then Inr (k * ms_per_day - off * 60000) else Inl Unmodelled)
       \<and> parse_local 0 d = (if c then Inr (k * ms_per_day - 0 * 60000) else Inl Unmodelled)"
  unfolding parse_local_def Let_def by blast

lemma isScheduled_zone: "isScheduled off h d = isScheduled 0 h d"
proof -
  from parse_local_shape[of off d] obtain c k where
    o: "parse_local off d = (if c then Inr (k * ms_per_day - off * 60000) else Inl Unmodelled)"
    and z: "parse_local 0 d = (if c then Inr (k * ms_per_day - 0 * 60000) else Inl Unmodelled)"
    by blast
  show ?thesis
  proof (cases c)
    case True
    with o z show ?thesis
      by (simp only: isScheduled_def if_True sum.case Let_def getDay_local_midnight)
  next
    case False
    with o z show ?thesis by (simp only: isScheduled_def if_False sum.case)
  qed
qed

lemma calcStreak_loop_round:
  "calcStreak_loop off s h n d =
     streak_round (isScheduled off h d) (hasCompleted s d (hid h)) (d < createdAt h)
       (addDays off d (- 1)) d n (calcStreak_loop off s h)"
  by (subst calcStreak_loop.simps) (simp add: streak_round_def Let_def split: sum.splits)

lemma streak_round_mono:
  assumes "streak_round sched dn bc back d n k = Some r"
      and "\<And>n' d'. k n' d' = Some r \<Longrightarrow> k' n' d' = Some r"
  shows "streak_round sched dn bc back d n k' = Some r"
  using assms unfolding streak_round_def Let_def
  by (auto split: sum.splits if_splits)

lemma calcStreak_loop_east_1:
  assumes run: "calcStreak_loop off s h n d = Some r"
  shows "0 \<le> off \<and> off < 1440 \<longrightarrow> calcStreak_loop 0 s h n d = Some r"
proof (rule calcStreak_loop.raw_induct
    [where P = "\<lambda>off s h n d r. 0 \<le> off \<and> off < 1440 \<longrightarrow> calcStreak_loop 0 s h n d = Some r",
     OF _ run], goal_cases)
  case (1 f off s h n d r)
  show ?case
  proof
    assume off: "0 \<le> off \<and> off < 1440"
    then have ad: "addDays off d (- 1) = addDays 0 d (- 1)"
      using addDays_east[of off d "- 1"] by blast
    have sc: "isScheduled off h d = isScheduled 0 h d" by (rule isScheduled_zone)
    have "streak_round (isScheduled off h d) (hasCompleted s d (hid h)) (d < createdAt h)
            (addDays off d (- 1)) d n (f off s h) = Some r"
      using 1(2) unfolding streak_round_def Let_def .
    then have "streak_round (isScheduled 0 h d) (hasCompleted s d (hid h)) (d < createdAt h)
            (addDays 0 d (- 1)) d n (f off s h) = Some r"
      by (simp only: ad sc)
    then have "streak_round (isScheduled 0 h d) (hasCompleted s d (hid h)) (d < createdAt h)
            (addDays 0 d (- 1)) d n (calcStreak_loop 0 s h) = Some r"
    proof (rule streak_round_mono)
      fix n' d' assume "f off s h n' d' = Some r"
      from 1(1)[OF this] off show "calcStreak_loop 0 s h n' d' = Some r" by simp
    qed
    then show "calcStreak_loop 0 s h n d = Some r"
      by (simp only: calcStreak_loop_round[of 0 s h n d])
  qed
qed

lemma calcStreak_loop_east_2:
  assumes run: "calcStreak_loop z s h n d = Some r"
  shows "z = 0 \<longrightarrow> (\<forall>off. 0 \<le> off \<and> off < 1440 \<longrightarrow> calcStreak_loop off s h n d = Some r)"
proof (rule calcStreak_loop.raw_induct
    [where P = "\<lambda>z s h n d r. z = 0 \<longrightarrow>
        (\<forall>off. 0 \<le> off \<and> off < 1440 \<longrightarrow> calcStreak_loop off s h n d = Some r)",
     OF _ run], goal_cases)
  case (1 f z s h n d r)
  show ?case
  proof (intro impI allI)
    fix off :: int
    assume z: "z = 0" and off: "0 \<le> off \<and> off < 1440"
    then have ad: "addDays off d (- 1) = addDays 0 d (- 1)"
      using addDays_east[of off d "- 1"] by blast
    have sc: "isScheduled off h d = isScheduled 0 h d" by (rule isScheduled_zone)
    have "streak_round (isScheduled z h d) (hasCompleted s d (hid h)) (d < createdAt h)
            (addDays z d (- 1)) d n (f z s h) = Some r"
      using 1(2) unfolding streak_round_def Let_def .
    then have "streak_round (isScheduled off h d) (hasCompleted s d (hid h)) (d < createdAt h)
            (addDays off d (- 1)) d n (f 0 s h) = Some r"
      by (simp only: z ad sc)
    then have "streak_round (isScheduled off h d) (hasCompleted s d (hid h)) (d < createdAt h)
            (addDays off d (- 1)) d n (calcStreak_loop off s h) = Some r"
    proof (rule streak_round_mono)
      fix n' d' assume "f 0 s h n' d' = Some r"
      from 1(1)[OF this] off show "calcStreak_loop off s h n' d' = Some r" by simp
    qed
    then show "calcStreak_loop off s h n d = Some r"
      by (simp only: calcStreak_loop_round[of off s h n d])
  qed
qed

lemma calcStreak_east:
  assumes "0 \<le> off" "off < 1440"
  shows "calcStreak off s h d = calcStreak 0 s h d"
proof (cases "calcStreak_loop off s h 0 d")
  case None
  show ?thesis
  proof (cases "calcStreak_loop 0 s h 0 d")
    case N0: None
    with None show ?thesis by (simp add: calcStreak_def)
  next
    case (Some r)
    with calcStreak_loop_east_2[OF Some] assms None show ?thesis by simp
  qed
next
  case (Some r)
  with calcStreak_loop_east_1[OF Some] assms show ?thesis by (simp add: calcStreak_def)
qed

section \<open>Calendar and streak in a zone west of Greenwich\<close>

text \<open>
  Claim C6 fails on the code in every zone west of Greenwich. In America/Bogota
  (UTC-5 all year) \<open>addDays\<close> of no days gives the day before, one day back gives
  two days back, and one day forward gives the same day: \<open>Date.UTC\<close> anchors the day
  at midnight UTC, which \<open>isoDate\<close> reads in the zone as the evening before.
\<close>

theorem addDays_west_of_utc:
  "addDays (- 300) ''2024-01-05'' 0 = Inr ''2024-01-04''
   \<and> addDays (- 300) ''2024-01-05'' (- 1) = Inr ''2024-01-03''
   \<and> addDays (- 300) ''2024-01-05'' 1 = Inr ''2024-01-05''"
  by code_simp

lemma addDays_east_of_utc:
  "addDays 60 ''2024-01-05'' 0 = Inr ''2024-01-05''
   \<and> addDays 60 ''2024-01-05'' (- 1) = Inr ''2024-01-04''
   \<and> addDays 60 ''2024-02-28'' 1 = Inr ''2024-02-29''"
  by code_simp

text \<open>
  Claim C4 fails on the code in the same zones, through \<open>addDays\<close>: the walk steps back
  two days at a time. For the habit of the specification's example (due every day,
  created on 2024-01-01, done on 3, 4 and 5 January) the streak as of 2024-01-05 is 2
  in America/Bogota, where the walk visits 5, 3 and 1 January; the day-by-day walk
  gives 3.
\<close>

theorem calcStreak_west_of_utc:
  "calcStreak (- 300) sample_store (sample_habit ''h1'' 0) ''2024-01-05'' = Some (Inr 2)"
  by code_simp

lemma calcStreak_east_of_utc:
  "calcStreak 60 sample_store (sample_habit ''h1'' 0) ''2024-01-05'' = Some (Inr 3)"
  by code_simp

end
